theory Spec2Isabelle
  imports Complex_Main "HOL-Library.Word"
begin

unbundle bit_operations_syntax

section \<open>dmfrbloom: Bloom filters over a packed bit field\<close>

text \<open>
  The development follows \<^verbatim>\<open>dmfrbloom/bloomfilter.py\<close>. Python integers are
  \<^typ>\<open>int\<close>, a byte is an 8-bit word, a byte buffer is a list of bytes, every
  exception the code can raise is a value of \<open>error\<close>, and a method that mutates
  its object returns the updated object.
\<close>

subsection \<open>Errors\<close>

datatype error =
    ZeroDivisionError
  | ValueError
  | OverflowError
  | IndexError
  | FileNotFoundError
  | IndexOutOfRange
  | AllocationError
  | InvalidParameters

subsection \<open>The bit field\<close>

type_synonym byte = "8 word"

text \<open>
  Modelled from the spec: the class \<^verbatim>\<open>BitField\<close> of \<^verbatim>\<open>dmfrbloom/bitfield.py\<close>,
  which \<^verbatim>\<open>bloomfilter.py\<close> imports. Its attributes are the number of addressable
  bits and a contiguous byte buffer.
\<close>

record BitField =
  bit_count :: int
  bitfield :: "byte list"

text \<open>\<open>ceil(n / 8)\<close> on a Python integer.\<close>

definition ceil_div8 :: "int \<Rightarrow> int" where
  "ceil_div8 n = - ((- n) div 8)"

text \<open>
  Modelled from the spec: \<^verbatim>\<open>BitField.__init__\<close>, which allocates a zero-filled
  buffer of \<open>ceil(bit_count / 8)\<close> bytes and fails only when that many bytes
  cannot be allocated; a negative length is the one case this model refuses.
\<close>

definition BitField_new :: "int \<Rightarrow> error + BitField" where
  "BitField_new n =
     (if ceil_div8 n < 0 then Inl AllocationError
      else Inr \<lparr>bit_count = n, bitfield = replicate (nat (ceil_div8 n)) 0\<rparr>)"

text \<open>
  Modelled from the spec: \<^verbatim>\<open>BitField.setbit\<close> and \<^verbatim>\<open>BitField.getbit\<close>. Bit
  \<open>index\<close> is bit \<open>index % 8\<close> (least significant first, by a left shift of 1) of byte
  \<open>index / 8\<close>. The index must satisfy \<open>0 \<le> index < bit_count\<close>; any other
  index fails with \<open>IndexOutOfRange\<close>, and so does an index whose byte the
  buffer does not have, which only a buffer assigned from outside can cause.
\<close>

definition setbit :: "BitField \<Rightarrow> int \<Rightarrow> error + BitField" where
  "setbit bf index =
     (if 0 \<le> index \<and> index < bit_count bf \<and> nat (index div 8) < length (bitfield bf)
      then Inr (bf\<lparr>bitfield := (bitfield bf)
                  [nat (index div 8) :=
                     (bitfield bf ! nat (index div 8)) OR push_bit (nat (index mod 8)) 1]\<rparr>)
      else Inl IndexOutOfRange)"

definition getbit :: "BitField \<Rightarrow> int \<Rightarrow> error + bool" where
  "getbit bf index =
     (if 0 \<le> index \<and> index < bit_count bf \<and> nat (index div 8) < length (bitfield bf)
      then Inr ((bitfield bf ! nat (index div 8)) AND push_bit (nat (index mod 8)) 1 \<noteq> 0)
      else Inl IndexOutOfRange)"

subsection \<open>Elements and their string form\<close>

text \<open>
  \<^verbatim>\<open>add\<close> and \<^verbatim>\<open>lookup\<close> take any Python value and use \<^verbatim>\<open>str(element)\<close>.
  Two kinds of value are modelled: strings, which \<^verbatim>\<open>str\<close> returns unchanged, and
  integers, which it writes in decimal.
\<close>

datatype pyval = PyStr string | PyInt int

definition digit_char :: "nat \<Rightarrow> char" where
  "digit_char d = ''0123456789'' ! d"

fun nat_digits :: "nat \<Rightarrow> string" where
  "nat_digits n = (if n < 10 then [digit_char n]
                   else nat_digits (n div 10) @ [digit_char (n mod 10)])"

fun py_str :: "pyval \<Rightarrow> string" where
  "py_str (PyStr s) = s"
| "py_str (PyInt i) = (if i < 0 then CHR ''-'' # nat_digits (nat (- i)) else nat_digits (nat i))"

subsection \<open>The filter\<close>

text \<open>
  The hash \<^verbatim>\<open>mmh3.hash(key, seed)\<close> comes from outside the repository (or from its
  pure-Python fallback); it is a parameter \<open>h\<close> of the operations, any function
  from a string and a seed to an integer, negative values included.
\<close>

type_synonym hash = "string \<Rightarrow> int \<Rightarrow> int"

record BloomFilter =
  size_f :: int
  hashcount :: int
  filter_f :: BitField

text \<open>\<^verbatim>\<open>range(n)\<close>: empty when \<open>n \<le> 0\<close>.\<close>

definition py_range :: "int \<Rightarrow> int list" where
  "py_range n = map int [0..<nat n]"

text \<open>
  \<^verbatim>\<open>mmh3.hash(str(element), seed) % self.size\<close>: Python's \<open>%\<close> raises on a zero
  divisor and otherwise takes the sign of the divisor, as \<open>mod\<close> on \<^typ>\<open>int\<close> does.
\<close>

definition bit_index :: "hash \<Rightarrow> int \<Rightarrow> string \<Rightarrow> int \<Rightarrow> error + int" where
  "bit_index h sz s seed = (if sz = 0 then Inl ZeroDivisionError else Inr (h s seed mod sz))"

text \<open>The loop of \<^verbatim>\<open>add\<close> over the seeds still to do.\<close>

fun add_loop :: "hash \<Rightarrow> int \<Rightarrow> string \<Rightarrow> int list \<Rightarrow> BitField \<Rightarrow> error + BitField" where
  "add_loop h sz s [] bf = Inr bf"
| "add_loop h sz s (seed # seeds) bf =
     (case bit_index h sz s seed of
        Inl e \<Rightarrow> Inl e
      | Inr result \<Rightarrow>
          (case setbit bf result of
             Inl e \<Rightarrow> Inl e
           | Inr bf' \<Rightarrow> add_loop h sz s seeds bf'))"

definition add :: "hash \<Rightarrow> BloomFilter \<Rightarrow> pyval \<Rightarrow> error + BloomFilter" where
  "add h f element =
     (case add_loop h (size_f f) (py_str element) (py_range (hashcount f)) (filter_f f) of
        Inl e \<Rightarrow> Inl e
      | Inr bf \<Rightarrow> Inr (f\<lparr>filter_f := bf\<rparr>))"

text \<open>The loop of \<^verbatim>\<open>lookup\<close>: the first unset bit returns \<open>False\<close>.\<close>

fun lookup_loop :: "hash \<Rightarrow> int \<Rightarrow> string \<Rightarrow> int list \<Rightarrow> BitField \<Rightarrow> error + bool" where
  "lookup_loop h sz s [] bf = Inr True"
| "lookup_loop h sz s (seed # seeds) bf =
     (case bit_index h sz s seed of
        Inl e \<Rightarrow> Inl e
      | Inr result \<Rightarrow>
          (case getbit bf result of
             Inl e \<Rightarrow> Inl e
           | Inr b \<Rightarrow> if b = False then Inr False else lookup_loop h sz s seeds bf))"

definition lookup :: "hash \<Rightarrow> BloomFilter \<Rightarrow> pyval \<Rightarrow> error + bool" where
  "lookup h f element =
     lookup_loop h (size_f f) (py_str element) (py_range (hashcount f)) (filter_f f)"

text \<open>Adding a list of elements in order, stopping at the first exception.\<close>

fun add_all :: "hash \<Rightarrow> BloomFilter \<Rightarrow> pyval list \<Rightarrow> error + BloomFilter" where
  "add_all h f [] = Inr f"
| "add_all h f (e # es) =
     (case add h f e of Inl err \<Rightarrow> Inl err | Inr f' \<Rightarrow> add_all h f' es)"

text \<open>
  What \<^verbatim>\<open>__init__\<close> builds once \<open>size\<close> and \<open>hashcount\<close> have been computed: the
  two attributes and a fresh bit field of \<open>size\<close> bits.
\<close>

definition new_filter :: "int \<Rightarrow> int \<Rightarrow> error + BloomFilter" where
  "new_filter sz hc =
     (case BitField_new sz of
        Inl e \<Rightarrow> Inl e
      | Inr bf \<Rightarrow> Inr \<lparr>size_f = sz, hashcount = hc, filter_f = bf\<rparr>)"

subsection \<open>Persistence\<close>

text \<open>
  \<^verbatim>\<open>n.to_bytes(length, byteorder="little")\<close> raises \<open>OverflowError\<close> on a negative
  integer and on one that needs more than \<open>length\<close> bytes;
  \<^verbatim>\<open>int.from_bytes(bs, byteorder="little")\<close> accepts any number of bytes, none
  included.
\<close>

fun le_bytes :: "nat \<Rightarrow> int \<Rightarrow> byte list" where
  "le_bytes 0 n = []"
| "le_bytes (Suc k) n = word_of_int n # le_bytes k (n div 256)"

definition to_bytes :: "int \<Rightarrow> nat \<Rightarrow> error + byte list" where
  "to_bytes n len = (if n < 0 \<or> 256 ^ len \<le> n then Inl OverflowError else Inr (le_bytes len n))"


text \<open>The files of the machine: the content of each path that exists.\<close>

type_synonym files = "string \<rightharpoonup> byte list"

text \<open>
  \<^verbatim>\<open>save\<close> opens the path for writing and writes the two 16-byte headers and the
  buffer. \<^verbatim>\<open>load\<close> opens the path for reading, which fails when there is no such
  file, reads 16 bytes twice (fewer when the file is shorter) and the rest, and
  assigns the rest to the buffer of the bit field it already owns.
\<close>

definition save :: "BloomFilter \<Rightarrow> string \<Rightarrow> files \<Rightarrow> error + files" where
  "save f path fs =
     (case to_bytes (size_f f) 16 of
        Inl e \<Rightarrow> Inl e
      | Inr sz_bytes \<Rightarrow>
          (case to_bytes (hashcount f) 16 of
             Inl e \<Rightarrow> Inl e
           | Inr hc_bytes \<Rightarrow>
               Inr (fs(path \<mapsto> sz_bytes @ hc_bytes @ bitfield (filter_f f)))))"


subsection \<open>Sizing and reporting\<close>

text \<open>
  The sizing and reporting functions compute with Python floats. They are
  modelled over the real numbers: \<^verbatim>\<open>math.log\<close> is the natural logarithm and the
  arithmetic is exact, so the rounding and the finite range of IEEE doubles
  are left out.
  \<^verbatim>\<open>int(x)\<close> truncates towards zero, \<^verbatim>\<open>math.log\<close> raises \<open>ValueError\<close> outside
  its domain, \<^verbatim>\<open>round(x, 4)\<close> rounds to four decimals, a tie going to the even
  neighbour.
\<close>

definition py_int :: "real \<Rightarrow> int" where
  "py_int x = (if 0 \<le> x then \<lfloor>x\<rfloor> else \<lceil>x\<rceil>)"

definition py_log :: "real \<Rightarrow> error + real" where
  "py_log x = (if x \<le> 0 then Inl ValueError else Inr (ln x))"

definition round_half_even :: "real \<Rightarrow> int" where
  "round_half_even y =
     (if y - of_int \<lfloor>y\<rfloor> < 1 / 2 then \<lfloor>y\<rfloor>
      else if 1 / 2 < y - of_int \<lfloor>y\<rfloor> then \<lfloor>y\<rfloor> + 1
      else if even \<lfloor>y\<rfloor> then \<lfloor>y\<rfloor> else \<lfloor>y\<rfloor> + 1)"

definition py_round4 :: "real \<Rightarrow> real" where
  "py_round4 x = of_int (round_half_even (x * 10 ^ 4)) / 10 ^ 4"

text \<open>\<^verbatim>\<open>x ** n\<close> for a float and an integer exponent.\<close>

definition py_pow :: "real \<Rightarrow> int \<Rightarrow> error + real" where
  "py_pow x n =
     (if 0 \<le> n then Inr (x ^ nat n)
      else if x = 0 then Inl ZeroDivisionError
      else Inr (1 / x ^ nat (- n)))"

definition ideal_size :: "int \<Rightarrow> real \<Rightarrow> error + int" where
  "ideal_size expected fp_rate =
     (case py_log fp_rate of
        Inl e \<Rightarrow> Inl e
      | Inr l \<Rightarrow> Inr (py_int (- (of_int expected * l) / (ln 2) ^ 2)))"



text \<open>
  \<^verbatim>\<open>accuracy\<close> calls \<^verbatim>\<open>print('FALSE: ', false_positive)\<close> before it returns; the
  model returns what was written to standard output together with the value.
\<close>

datatype stdout_line = Print string real

definition accuracy :: "int \<Rightarrow> int \<Rightarrow> int \<Rightarrow> error + (stdout_line list \<times> real)" where
  "accuracy sz hc elements =
     (if sz = 0 then Inl ZeroDivisionError
      else case py_pow (1 - 1 / of_int sz) (hc * elements) of
        Inl e \<Rightarrow> Inl e
      | Inr p \<Rightarrow>
          (case py_pow (1 - p) hc of
             Inl e \<Rightarrow> Inl e
           | Inr false_positive \<Rightarrow>
               Inr ([Print ''FALSE: '' false_positive],
                    py_round4 (100 - false_positive * 100))))"

definition bytesize :: "BloomFilter \<Rightarrow> int" where
  "bytesize f = \<lceil>of_int (size_f f) / (8::real)\<rceil>"

definition suffix :: "string list" where
  "suffix = [''bytes'', ''Kb'', ''Mb'', ''Gb'', ''Tb'', ''Pb'', ''Eb'', ''Zb'', ''Yb'']"

text \<open>\<^verbatim>\<open>math.log(x, 2)\<close>.\<close>

definition py_log2 :: "real \<Rightarrow> error + real" where
  "py_log2 x = (if x \<le> 0 then Inl ValueError else Inr (ln x / ln 2))"

text \<open>
  The magnitude \<^verbatim>\<open>int(log(ceil(self.size) / 8, 2) / 10) if self.size else 0\<close>: the
  ceiling is taken of the size in bits, an integer already, and the division by 8
  is not rounded.
\<close>

definition size_order :: "int \<Rightarrow> error + int" where
  "size_order sz =
     (if sz \<noteq> 0
      then (case py_log2 (of_int \<lceil>(of_int sz :: real)\<rceil> / 8) of
              Inl e \<Rightarrow> Inl e
            | Inr l \<Rightarrow> Inr (py_int (l / 10)))
      else Inr 0)"

text \<open>
  \<^verbatim>\<open>bytesize_human\<close>: \<^verbatim>\<open>1 << n\<close> raises \<open>ValueError\<close> on a negative \<open>n\<close>, and the
  list of suffixes has nine entries. How Python writes a float as a string is
  the parameter \<open>float_str\<close>.
\<close>

definition bytesize_human :: "(real \<Rightarrow> string) \<Rightarrow> BloomFilter \<Rightarrow> error + string" where
  "bytesize_human float_str f =
     (case size_order (size_f f) of
        Inl e \<Rightarrow> Inl e
      | Inr order \<Rightarrow>
          if order < 0 then Inl ValueError
          else let rounded = py_round4 (of_int \<lceil>of_int (size_f f) / (8::real)\<rceil>
                                          / of_int (push_bit (nat (order * 10)) 1))
               in if int (length suffix) \<le> order then Inl IndexError
                  else Inr (float_str rounded @ suffix ! nat order))"

text \<open>A hash that also takes negative values, for the concrete runs below.\<close>

definition demo_hash :: hash where
  "demo_hash s seed = 7 * int (length s) + 3 * seed - 20"


definition other_filter :: BloomFilter where
  "other_filter = \<lparr>size_f = 3, hashcount = 1, filter_f = \<lparr>bit_count = 3, bitfield = [0]\<rparr>\<rparr>"



definition degenerate_filter :: BloomFilter where
  "degenerate_filter = \<lparr>size_f = 1, hashcount = 0, filter_f = \<lparr>bit_count = 1, bitfield = [0]\<rparr>\<rparr>"

text \<open>
  Two properties of a filter state used in the proofs: the bit field has a bit,
  and its buffer a byte, for every index below the size; and all the bits of a
  string are set.
\<close>

definition fits :: "BloomFilter \<Rightarrow> bool" where
  "fits f = (1 \<le> size_f f \<and> size_f f \<le> bit_count (filter_f f) \<and>
             bit_count (filter_f f) \<le> 8 * int (length (bitfield (filter_f f))))"

definition marked :: "hash \<Rightarrow> BloomFilter \<Rightarrow> string \<Rightarrow> bool" where
  "marked h f s =
     list_all (\<lambda>seed. getbit (filter_f f) (h s seed mod size_f f) = Inr True)
       (py_range (hashcount f))"

section \<open>Properties\<close>

subsection \<open>Bits stay set\<close>


lemma getbit_iff_bit:
  "getbit bf i = Inr b \<longleftrightarrow>
     0 \<le> i \<and> i < bit_count bf \<and> nat (i div 8) < length (bitfield bf) \<and>
     b = bit (bitfield bf ! nat (i div 8)) (nat (i mod 8))"
  by (auto simp: getbit_def bit_iff_and_push_bit_not_eq_0)

lemma setbit_Inr:
  "setbit bf j = Inr bf' \<Longrightarrow>
     0 \<le> j \<and> j < bit_count bf \<and> nat (j div 8) < length (bitfield bf) \<and>
     bitfield bf' = (bitfield bf)[nat (j div 8) :=
        (bitfield bf ! nat (j div 8)) OR push_bit (nat (j mod 8)) 1] \<and>
     bit_count bf' = bit_count bf"
  by (auto simp: setbit_def split: if_splits)

lemma setbit_length: "setbit bf j = Inr bf' \<Longrightarrow> length (bitfield bf') = length (bitfield bf)"
  by (auto dest: setbit_Inr)

lemma setbit_succeeds:
  "0 \<le> j \<Longrightarrow> j < bit_count bf \<Longrightarrow> bit_count bf \<le> 8 * int (length (bitfield bf)) \<Longrightarrow>
     \<exists>bf'. setbit bf j = Inr bf'"
  by (auto simp: setbit_def)

lemma setbit_sets:
  assumes "setbit bf j = Inr bf'"
  shows "getbit bf' j = Inr True"
proof -
  from setbit_Inr [OF assms] have j: "0 \<le> j" "j < bit_count bf'"
    "nat (j div 8) < length (bitfield bf)"
    and b: "bitfield bf' = (bitfield bf)[nat (j div 8) :=
        (bitfield bf ! nat (j div 8)) OR push_bit (nat (j mod 8)) 1]"
    by auto
  have "nat (j mod 8) < 8" by simp
  then show ?thesis
    using j b by (simp add: getbit_iff_bit bit_simps)
qed

lemma setbit_keeps:
  assumes "setbit bf j = Inr bf'" and "getbit bf i = Inr True"
  shows "getbit bf' i = Inr True"
proof -
  from setbit_Inr [OF assms(1)] have j: "0 \<le> j" "nat (j div 8) < length (bitfield bf)"
    and c: "bit_count bf' = bit_count bf"
    and b: "bitfield bf' = (bitfield bf)[nat (j div 8) :=
        (bitfield bf ! nat (j div 8)) OR push_bit (nat (j mod 8)) 1]"
    by auto
  from assms(2) have i: "0 \<le> i" "i < bit_count bf" "nat (i div 8) < length (bitfield bf)"
    "bit (bitfield bf ! nat (i div 8)) (nat (i mod 8))"
    by (auto simp: getbit_iff_bit)
  show ?thesis
    using i j b c by (simp add: getbit_iff_bit nth_list_update bit_simps)
qed

lemma bit_index_range:
  "1 \<le> sz \<Longrightarrow> bit_index h sz s seed = Inr (h s seed mod sz) \<and> 0 \<le> h s seed mod sz \<and> h s seed mod sz < sz"
  by (simp add: bit_index_def)

lemma add_loop_ok:
  assumes "1 \<le> sz" and "sz \<le> bit_count bf"
    and "bit_count bf \<le> 8 * int (length (bitfield bf))"
  shows "\<exists>bf'. add_loop h sz s seeds bf = Inr bf' \<and>
           bit_count bf' = bit_count bf \<and>
           length (bitfield bf') = length (bitfield bf) \<and>
           (\<forall>i. getbit bf i = Inr True \<longrightarrow> getbit bf' i = Inr True) \<and>
           (\<forall>seed \<in> set seeds. getbit bf' (h s seed mod sz) = Inr True)"
  using assms(2,3)
proof (induction seeds arbitrary: bf)
  case Nil
  then show ?case by simp
next
  case (Cons seed seeds)
  let ?r = "h s seed mod sz"
  from assms(1) have r: "bit_index h sz s seed = Inr ?r" "0 \<le> ?r" "?r < sz"
    using bit_index_range [of sz h s seed] by auto
  with Cons.prems(1) have "?r < bit_count bf" by linarith
  with r(2) Cons.prems(2) obtain bf1 where s1: "setbit bf ?r = Inr bf1"
    using setbit_succeeds by blast
  have len1: "length (bitfield bf1) = length (bitfield bf)"
    using s1 by (rule setbit_length)
  have cnt1: "bit_count bf1 = bit_count bf"
    using setbit_Inr [OF s1] by simp
  from Cons.prems cnt1 len1 have "sz \<le> bit_count bf1"
    and "bit_count bf1 \<le> 8 * int (length (bitfield bf1))" by simp_all
  from Cons.IH [OF this] obtain bf' where
    loop: "add_loop h sz s seeds bf1 = Inr bf'"
    and cnt: "bit_count bf' = bit_count bf1"
    and len: "length (bitfield bf') = length (bitfield bf1)"
    and keep: "\<forall>i. getbit bf1 i = Inr True \<longrightarrow> getbit bf' i = Inr True"
    and new: "\<forall>seed \<in> set seeds. getbit bf' (h s seed mod sz) = Inr True"
    by blast
  have "add_loop h sz s (seed # seeds) bf = Inr bf'"
    using r(1) s1 loop by simp
  moreover have "getbit bf' ?r = Inr True"
    using keep setbit_sets [OF s1] by blast
  moreover have "\<forall>i. getbit bf i = Inr True \<longrightarrow> getbit bf' i = Inr True"
    using keep setbit_keeps [OF s1] by blast
  ultimately show ?case
    using len len1 cnt cnt1 new by auto
qed

lemma lookup_loop_True:
  assumes "sz \<noteq> 0" and "\<forall>seed \<in> set seeds. getbit bf (h s seed mod sz) = Inr True"
  shows "lookup_loop h sz s seeds bf = Inr True"
  using assms(2) by (induction seeds) (simp_all add: bit_index_def assms(1))

lemma add_ok:
  assumes "fits f"
  shows "\<exists>f'. add h f e = Inr f' \<and> fits f' \<and> size_f f' = size_f f \<and>
           hashcount f' = hashcount f \<and> marked h f' (py_str e) \<and>
           (\<forall>s. marked h f s \<longrightarrow> marked h f' s)"
proof -
  from assms have sz: "1 \<le> size_f f" "size_f f \<le> bit_count (filter_f f)"
    "bit_count (filter_f f) \<le> 8 * int (length (bitfield (filter_f f)))"
    by (simp_all add: fits_def)
  from add_loop_ok [OF sz, of h "py_str e" "py_range (hashcount f)"]
  obtain bf' where
    loop: "add_loop h (size_f f) (py_str e) (py_range (hashcount f)) (filter_f f) = Inr bf'"
    and cnt: "bit_count bf' = bit_count (filter_f f)"
    and len: "length (bitfield bf') = length (bitfield (filter_f f))"
    and keep: "\<forall>i. getbit (filter_f f) i = Inr True \<longrightarrow> getbit bf' i = Inr True"
    and new: "\<forall>seed \<in> set (py_range (hashcount f)).
                getbit bf' (h (py_str e) seed mod size_f f) = Inr True"
    by blast
  have "add h f e = Inr (f\<lparr>filter_f := bf'\<rparr>)"
    using loop by (simp add: add_def)
  moreover have "fits (f\<lparr>filter_f := bf'\<rparr>)"
    using sz len cnt by (simp add: fits_def)
  moreover have "marked h (f\<lparr>filter_f := bf'\<rparr>) (py_str e)"
    using new by (simp add: marked_def list_all_iff)
  moreover have "\<forall>s. marked h f s \<longrightarrow> marked h (f\<lparr>filter_f := bf'\<rparr>) s"
    using keep by (simp add: marked_def list_all_iff)
  ultimately show ?thesis by simp
qed

lemma add_all_ok:
  assumes "fits f"
  shows "\<exists>f'. add_all h f es = Inr f' \<and> fits f' \<and> (\<forall>s. marked h f s \<longrightarrow> marked h f' s)"
  using assms
proof (induction es arbitrary: f)
  case Nil
  then show ?case by simp
next
  case (Cons e es)
  from add_ok [OF Cons.prems, of h e] obtain f1 where
    a: "add h f e = Inr f1" and f1: "fits f1" and k1: "\<forall>s. marked h f s \<longrightarrow> marked h f1 s"
    by blast
  from Cons.IH [OF f1] obtain f' where
    b: "add_all h f1 es = Inr f'" and f': "fits f'" and k: "\<forall>s. marked h f1 s \<longrightarrow> marked h f' s"
    by blast
  have "add_all h f (e # es) = Inr f'" using a b by simp
  then show ?case using f' k k1 by blast
qed

lemma lookup_marked:
  assumes "fits f" and "marked h f (py_str e)"
  shows "lookup h f e = Inr True"
proof -
  from assms(1) have "size_f f \<noteq> 0" by (simp add: fits_def)
  then show ?thesis
    using assms(2) unfolding lookup_def marked_def list_all_iff
    by (intro lookup_loop_True) auto
qed

lemma ceil_div8_bound: "n \<le> 8 * ceil_div8 n"
  unfolding ceil_div8_def by linarith

lemma new_filter_fits:
  assumes "1 \<le> sz"
  shows "\<exists>f. new_filter sz hc = Inr f \<and> fits f \<and> size_f f = sz \<and> hashcount f = hc"
proof -
  have "sz \<le> 8 * ceil_div8 sz" by (rule ceil_div8_bound)
  with assms have "0 \<le> ceil_div8 sz" by linarith
  then show ?thesis
    using \<open>sz \<le> 8 * ceil_div8 sz\<close> assms
    by (simp add: new_filter_def BitField_new_def fits_def)
qed

text \<open>
  C1. No false negatives: a filter built with a size and a hash count of at
  least 1 accepts every \<open>add\<close> without an exception, and once an element has
  been added, whatever was added before it and whatever is added after it,
  \<open>lookup\<close> of that element returns \<open>True\<close>.
\<close>

theorem no_false_negatives:
  assumes "1 \<le> sz" and "1 \<le> hc"
  shows "\<exists>f0 f1 f2 f3.
           new_filter sz hc = Inr f0 \<and> add_all h f0 before = Inr f1 \<and>
           add h f1 e = Inr f2 \<and> add_all h f2 after = Inr f3 \<and>
           lookup h f3 e = Inr True"
proof -
  from new_filter_fits [OF assms(1), of hc] obtain f0 where
    n: "new_filter sz hc = Inr f0" and f0: "fits f0" by blast
  from add_all_ok [OF f0, of h before] obtain f1 where
    b: "add_all h f0 before = Inr f1" and f1: "fits f1" by blast
  from add_ok [OF f1, of h e] obtain f2 where
    a: "add h f1 e = Inr f2" and f2: "fits f2" and m2: "marked h f2 (py_str e)" by blast
  from add_all_ok [OF f2, of h after] obtain f3 where
    c: "add_all h f2 after = Inr f3" and f3: "fits f3"
    and k: "\<forall>s. marked h f2 s \<longrightarrow> marked h f3 s" by blast
  from k m2 have "marked h f3 (py_str e)" by blast
  with f3 have "lookup h f3 e = Inr True" by (rule lookup_marked)
  with n b a c show ?thesis by blast
qed

theorem no_false_negatives_witness:
  "(1::int) \<le> 10 \<and> (1::int) \<le> 3 \<and>
   (\<exists>f0 f1 f2 f3.
      new_filter 10 3 = Inr f0 \<and> add_all demo_hash f0 [PyStr ''a''] = Inr f1 \<and>
      add demo_hash f1 (PyInt 1) = Inr f2 \<and> add_all demo_hash f2 [PyStr ''bc''] = Inr f3 \<and>
      lookup demo_hash f3 (PyInt 1) = Inr True)"
  using no_false_negatives [of 10 3 demo_hash "[PyStr ''a'']" "PyInt 1" "[PyStr ''bc'']"]
  by simp

subsection \<open>Persistence\<close>





lemma to_bytes_succeeds:
  "0 \<le> n \<Longrightarrow> n < 256 ^ k \<Longrightarrow> \<exists>bs. to_bytes n k = Inr bs"
  by (simp add: to_bytes_def)




lemma save_succeeds:
  assumes "0 \<le> size_f f" "size_f f < 2 ^ 128" "0 \<le> hashcount f" "hashcount f < 2 ^ 128"
  shows "\<exists>fs'. save f path fs = Inr fs'"
proof -
  have "(256::int) ^ 16 = 2 ^ 128" by simp
  with assms show ?thesis by (simp add: save_def to_bytes_def)
qed







subsection \<open>Indices and string forms\<close>




text \<open>
  C10. Membership depends only on the string form: for two values with the same
  \<open>str\<close>, \<open>add\<close> gives the same result (the same bits set, or the same
  exception) and \<open>lookup\<close> the same answer in every filter state; in a filter of
  size at least 1 whose bit field holds that many bits, after adding one of them
  \<open>lookup\<close> of the other returns \<open>True\<close>.
\<close>

theorem str_determines_membership:
  assumes "py_str a = py_str b"
  shows "add h f a = add h f b \<and> lookup h f a = lookup h f b \<and>
         (1 \<le> size_f f \<and> size_f f \<le> bit_count (filter_f f) \<and>
          bit_count (filter_f f) \<le> 8 * int (length (bitfield (filter_f f))) \<longrightarrow>
            (\<exists>f'. add h f a = Inr f' \<and> lookup h f' b = Inr True))"
proof -
  have eq: "add h f a = add h f b" "lookup h f a = lookup h f b"
    using assms by (simp_all add: add_def lookup_def)
  have "\<exists>f'. add h f a = Inr f' \<and> lookup h f' b = Inr True"
    if "1 \<le> size_f f \<and> size_f f \<le> bit_count (filter_f f) \<and>
        bit_count (filter_f f) \<le> 8 * int (length (bitfield (filter_f f)))"
  proof -
    from that have "fits f" by (simp add: fits_def)
    from add_ok [OF this, of h a] obtain f' where
      a: "add h f a = Inr f'" and f': "fits f'" and m: "marked h f' (py_str a)" by blast
    from m assms have "marked h f' (py_str b)" by simp
    with f' have "lookup h f' b = Inr True" by (rule lookup_marked)
    with a show ?thesis by blast
  qed
  with eq show ?thesis by blast
qed

theorem str_determines_membership_witness:
  "py_str (PyInt 1) = py_str (PyStr ''1'') \<and>
   add demo_hash other_filter (PyInt 1) = add demo_hash other_filter (PyStr ''1'') \<and>
   lookup demo_hash other_filter (PyInt 1) = lookup demo_hash other_filter (PyStr ''1'') \<and>
   (\<exists>f'. add demo_hash other_filter (PyInt 1) = Inr f' \<and> lookup demo_hash f' (PyStr ''1'') = Inr True)"
proof -
  have s: "py_str (PyInt 1) = py_str (PyStr ''1'')" by (simp add: digit_char_def)
  have "1 \<le> size_f other_filter \<and>
        size_f other_filter \<le> bit_count (filter_f other_filter) \<and>
        bit_count (filter_f other_filter) \<le> 8 * int (length (bitfield (filter_f other_filter)))"
    by (simp add: other_filter_def)
  then show ?thesis
    using s str_determines_membership [OF s, of demo_hash other_filter] by blast
qed

text \<open>
  C4, as stated, fails: with a hash count of 0 the loop of \<open>lookup\<close> has no
  iteration and the function returns \<open>True\<close>, not \<open>False\<close>.
\<close>

theorem lookup_hashcount_zero_counterexample:
  "lookup demo_hash degenerate_filter (PyStr ''x'') \<noteq> Inr False"
  by (simp add: lookup_def degenerate_filter_def py_range_def)

text \<open>
  C4, amended. Degenerate filter behaviour: for a filter whose hash count is 0,
  \<open>lookup\<close> returns \<open>True\<close> (reports membership) for every element.
\<close>

theorem lookup_hashcount_zero:
  assumes "hashcount f = 0"
  shows "lookup h f e = Inr True"
  using assms by (simp add: lookup_def py_range_def)

theorem lookup_hashcount_zero_witness:
  "hashcount degenerate_filter = 0 \<and> lookup demo_hash degenerate_filter (PyStr ''x'') = Inr True"
proof -
  have z: "hashcount degenerate_filter = 0" by (simp add: degenerate_filter_def)
  show ?thesis using z lookup_hashcount_zero [OF z, of demo_hash "PyStr ''x''"] by simp
qed

subsection \<open>Accuracy\<close>








text \<open>
  C6. \<open>accuracy\<close> is not free of side effects: the call \<open>accuracy(2, 1, 1)\<close>
  returns \<open>50.0\<close>, the value of the formula rounded to four places, and writes
  the line \<open>FALSE:  0.5\<close> to standard output on the way.
\<close>

theorem accuracy_prints: "accuracy 2 1 1 = Inr ([Print ''FALSE: '' (1 / 2)], 50)"
  by (simp add: accuracy_def py_pow_def py_round4_def round_half_even_def)

subsection \<open>Sizing\<close>

lemma exp_lower_partial:
  fixes x :: real
  assumes "0 \<le> x"
  shows "(\<Sum>m<n. x ^ m / fact m) \<le> exp x"
proof -
  from Maclaurin_exp_le [of x n] obtain t where
    e: "exp x = (\<Sum>m<n. x ^ m / fact m) + exp t / fact n * x ^ n" by blast
  have "0 \<le> exp t / fact n * x ^ n" using assms by simp
  with e show ?thesis by linarith
qed

lemma exp_upper_partial:
  fixes x :: real
  assumes "0 \<le> x" and "x \<le> 1"
  shows "exp x \<le> (\<Sum>m<n. x ^ m / fact m) + 3 * x ^ n / fact n"
proof -
  from Maclaurin_exp_le [of x n] obtain t where
    t: "\<bar>t\<bar> \<le> \<bar>x\<bar>" and e: "exp x = (\<Sum>m<n. x ^ m / fact m) + exp t / fact n * x ^ n"
    by blast
  from t assms have "t \<le> 1" by linarith
  then have "exp t \<le> exp 1" by simp
  also have "\<dots> \<le> 3" by (rule exp_le)
  finally have "exp t \<le> 3" .
  then have "exp t * (x ^ n / fact n) \<le> 3 * (x ^ n / fact n)"
    using assms by (intro mult_right_mono) simp_all
  with e show ?thesis by simp
qed

lemma ln2_lower: "445 / 642 < ln (2::real)"
proof -
  have "exp (445 / 642 :: real) \<le> (\<Sum>m<10. (445 / 642) ^ m / fact m) + 3 * (445 / 642) ^ 10 / fact 10"
    by (rule exp_upper_partial) simp_all
  also have "\<dots> < 2"
    by (simp add: lessThan_Suc eval_nat_numeral fact_numeral)
  finally have "exp (445 / 642 :: real) < 2" .
  then have "ln (exp (445 / 642 :: real)) < ln 2" by (subst ln_less_cancel_iff) simp_all
  then show ?thesis by simp
qed

lemma ln2_upper: "ln (2::real) < 1143 / 1649"
proof -
  have "(2::real) < (\<Sum>m<10. (1143 / 1649) ^ m / fact m)"
    by (simp add: lessThan_Suc eval_nat_numeral fact_numeral)
  also have "\<dots> \<le> exp (1143 / 1649)"
    by (rule exp_lower_partial) simp
  finally have "(2::real) < exp (1143 / 1649)" .
  then have "ln (2::real) < ln (exp (1143 / 1649))" by (subst ln_less_cancel_iff) simp_all
  then show ?thesis by simp
qed

lemma ln54_lower: "22314 / 100000 < ln (5 / 4 :: real)"
proof -
  have "exp (22314 / 100000 :: real)
          \<le> (\<Sum>m<7. (22314 / 100000) ^ m / fact m) + 3 * (22314 / 100000) ^ 7 / fact 7"
    by (rule exp_upper_partial) simp_all
  also have "\<dots> < 5 / 4"
    by (simp add: lessThan_Suc eval_nat_numeral fact_numeral)
  finally have "exp (22314 / 100000 :: real) < 5 / 4" .
  then have "ln (exp (22314 / 100000 :: real)) < ln (5 / 4)" by (subst ln_less_cancel_iff) simp_all
  then show ?thesis by simp
qed

lemma ln54_upper: "ln (5 / 4 :: real) < 2232 / 10000"
proof -
  have "(5 / 4 :: real) < (\<Sum>m<6. (2232 / 10000) ^ m / fact m)"
    by (simp add: lessThan_Suc eval_nat_numeral fact_numeral)
  also have "\<dots> \<le> exp (2232 / 10000)"
    by (rule exp_lower_partial) simp
  finally have "(5 / 4 :: real) < exp (2232 / 10000)" .
  then have "ln (5 / 4 :: real) < ln (exp (2232 / 10000))" by (subst ln_less_cancel_iff) simp_all
  then show ?thesis by simp
qed

lemma ln100_eq: "ln (100::real) = 6 * ln 2 + 2 * ln (5 / 4)"
proof -
  have "(100::real) = 2 ^ 6 * (5 / 4) ^ 2" by (simp add: power2_eq_square)
  then have "ln (100::real) = ln (2 ^ 6 * (5 / 4) ^ 2)" by simp
  also have "\<dots> = ln (2 ^ 6) + ln ((5 / 4 :: real) ^ 2)" by (rule ln_mult_pos) simp_all
  also have "\<dots> = 6 * ln 2 + 2 * ln (5 / 4)" by (simp only: ln_realpow of_nat_numeral)
  finally show ?thesis .
qed


lemma ideal_size_floor:
  assumes "1 \<le> expected" and "0 < fp_rate" and "fp_rate < 1"
  shows "ideal_size expected fp_rate = Inr \<lfloor>- (of_int expected * ln fp_rate) / (ln 2)\<^sup>2\<rfloor>"
    and "0 \<le> - (of_int expected * ln fp_rate) / (ln 2)\<^sup>2"
proof -
  have "0 < real_of_int expected" using assms(1) by simp
  moreover from assms have "ln fp_rate < 0" by simp
  ultimately have "real_of_int expected * ln fp_rate < 0" by (rule mult_pos_neg)
  then have "real_of_int expected * ln fp_rate / (ln 2)\<^sup>2 \<le> 0"
    by (intro divide_nonpos_nonneg) simp_all
  then show q: "0 \<le> - (of_int expected * ln fp_rate) / (ln 2)\<^sup>2" by simp
  then show "ideal_size expected fp_rate = Inr \<lfloor>- (of_int expected * ln fp_rate) / (ln 2)\<^sup>2\<rfloor>"
    using assms(2) by (simp add: ideal_size_def py_log_def py_int_def)
qed




lemma size_quotient_854:
  "8185 < 854 * ln (100::real) / (ln 2)\<^sup>2" "854 * ln (100::real) / (ln 2)\<^sup>2 < 8186"
proof -
  have pos: "0 < ln (2::real)" by simp
  have lo: "(445 / 642)\<^sup>2 < (ln (2::real))\<^sup>2"
    using ln2_lower by (intro power_strict_mono) simp_all
  have hi: "(ln (2::real))\<^sup>2 < (1143 / 1649)\<^sup>2"
    using ln2_upper pos by (intro power_strict_mono) simp_all
  have l100: "6 * (445 / 642) + 2 * (22314 / 100000) < ln (100::real)"
    using ln2_lower ln54_lower by (simp add: ln100_eq)
  have u100: "ln (100::real) < 6 * (1143 / 1649) + 2 * (2232 / 10000)"
    using ln2_upper ln54_upper by (simp add: ln100_eq)
  have "8185 * (ln (2::real))\<^sup>2 < 8185 * (1143 / 1649)\<^sup>2" using hi by simp
  also have "\<dots> < 854 * (6 * (445 / 642) + 2 * (22314 / 100000))"
    by (simp add: power2_eq_square)
  also have "\<dots> < 854 * ln (100::real)" using l100 by simp
  finally show "8185 < 854 * ln (100::real) / (ln 2)\<^sup>2"
    using pos by (simp add: pos_less_divide_eq)
  have "854 * ln (100::real) < 854 * (6 * (1143 / 1649) + 2 * (2232 / 10000))"
    using u100 by simp
  also have "\<dots> < 8186 * (445 / 642)\<^sup>2" by (simp add: power2_eq_square)
  also have "\<dots> < 8186 * (ln (2::real))\<^sup>2" using lo by simp
  finally show "854 * ln (100::real) / (ln 2)\<^sup>2 < 8186"
    using pos by (simp add: pos_divide_less_eq)
qed

lemma quotient_854:
  "- (of_int 854 * ln (1 / 100 :: real)) / (ln 2)\<^sup>2 = 854 * ln 100 / (ln 2)\<^sup>2"
  by (simp add: ln_div)

lemma ideal_size_854: "ideal_size 854 (1 / 100) = Inr 8185"
proof -
  have "\<lfloor>854 * ln (100::real) / (ln 2)\<^sup>2\<rfloor> = 8185"
    using size_quotient_854 by (intro floor_unique) simp_all
  moreover have "ideal_size 854 (1 / 100) = Inr \<lfloor>- (of_int 854 * ln (1 / 100 :: real)) / (ln 2)\<^sup>2\<rfloor>"
    by (rule ideal_size_floor(1)) simp_all
  ultimately show ?thesis by (simp only: quotient_854)
qed












subsection \<open>Reporting the size\<close>

lemma size_order_below_8192:
  assumes "8 \<le> sz" and "sz < 8192"
  shows "size_order sz = Inr 0"
proof -
  let ?x = "real_of_int sz / 8"
  let ?l = "ln ?x / ln 2"
  from assms have x: "1 \<le> ?x" "?x < 2 ^ 10" by simp_all
  then have "ln ?x < ln (2 ^ 10)" by (subst ln_less_cancel_iff) simp_all
  also have "\<dots> = 10 * ln 2" by (simp only: ln_realpow of_nat_numeral)
  finally have a: "ln ?x < 10 * ln 2" .
  have lt: "?l / 10 < 1" using a by (simp add: pos_divide_less_eq mult.commute)
  have "0 \<le> ln ?x" using x(1) by simp
  then have ge: "0 \<le> ?l / 10" by simp
  from ge lt have "\<lfloor>?l / 10\<rfloor> = 0" by (intro floor_unique) simp_all
  with ge assms(1) show ?thesis by (simp add: size_order_def py_log2_def py_int_def)
qed

lemma size_order_8192: "size_order 8192 = Inr 1"
proof -
  have "ln (1024 :: real) = ln (2 ^ 10)" by simp
  also have "\<dots> = 10 * ln 2" by (simp only: ln_realpow of_nat_numeral)
  finally have "ln (1024 :: real) / ln 2 / 10 = 1" by simp
  then show ?thesis by (simp add: size_order_def py_log2_def py_int_def)
qed

lemma py_round4_int: "py_round4 (of_int n) = of_int n"
proof -
  have "(of_int n :: real) * 10 ^ 4 = of_int (n * 10 ^ 4)" by simp
  then have "round_half_even (of_int n * 10 ^ 4) = n * 10 ^ 4"
    by (simp only: round_half_even_def floor_of_int) simp
  then show ?thesis by (simp add: py_round4_def)
qed

text \<open>
  C9. \<open>bytesize_human\<close> on a byte size of exactly 1024: \<open>BloomFilter(854, 0.01)\<close>
  has 8185 bits; a filter of 8185 bits has \<open>bytesize\<close> 1024 and is rendered as
  1024 with the suffix \<open>bytes\<close>, while a filter of 8192 bits, of the same byte
  size, is rendered as 1 with \<open>Kb\<close>.
\<close>

theorem bytesize_human_1024_bytes:
  "ideal_size 854 (1 / 100) = Inr 8185 \<and>
   bytesize (f\<lparr>size_f := 8185\<rparr>) = 1024 \<and>
   bytesize_human float_str (f\<lparr>size_f := 8185\<rparr>) = Inr (float_str 1024 @ ''bytes'') \<and>
   bytesize (f\<lparr>size_f := 8192\<rparr>) = 1024 \<and>
   bytesize_human float_str (f\<lparr>size_f := 8192\<rparr>) = Inr (float_str 1 @ ''Kb'')"
proof -
  have c: "\<lceil>8185 / 8 :: real\<rceil> = 1024" by (intro ceiling_unique) simp_all
  have o: "size_order 8185 = Inr 0" by (rule size_order_below_8192) simp_all
  have r: "py_round4 1024 = 1024" "py_round4 1 = 1"
    using py_round4_int [of 1024] py_round4_int [of 1] by simp_all
  have "bytesize (f\<lparr>size_f := 8185\<rparr>) = 1024" by (simp add: bytesize_def c)
  moreover have "bytesize_human float_str (f\<lparr>size_f := 8185\<rparr>) = Inr (float_str 1024 @ ''bytes'')"
    by (simp add: bytesize_human_def o c r suffix_def)
  moreover have "bytesize (f\<lparr>size_f := 8192\<rparr>) = 1024" by (simp add: bytesize_def)
  moreover have "bytesize_human float_str (f\<lparr>size_f := 8192\<rparr>) = Inr (float_str 1 @ ''Kb'')"
    by (simp add: bytesize_human_def size_order_8192 r suffix_def)
  ultimately show ?thesis using ideal_size_854 by blast
qed

end
